theory Spec2Isabelle
  imports Main
begin

section \<open>Strings of UTF-16 code units\<close>

text \<open>
  A JavaScript string is a sequence of 16-bit code units. Every glyph the parser looks
  for lies in the Basic Multilingual Plane, so each is one code unit. A string is
  modelled as the list of its code units, each a natural number.
\<close>

type_synonym ustring = "nat list"

definition ascii :: "string \<Rightarrow> ustring" where
  "ascii s = map of_char s"

text \<open>\<^verbatim>\<open>s.startsWith(n)\<close> and \<^verbatim>\<open>s.includes(n)\<close>.\<close>

fun starts_with :: "ustring \<Rightarrow> ustring \<Rightarrow> bool" where
  "starts_with s [] = True"
| "starts_with [] (n # ns) = False"
| "starts_with (c # cs) (n # ns) = (c = n \<and> starts_with cs ns)"

fun js_includes :: "ustring \<Rightarrow> ustring \<Rightarrow> bool" where
  "js_includes [] n = (n = [])"
| "js_includes (c # cs) n = (starts_with (c # cs) n \<or> js_includes cs n)"

text \<open>
  The characters \<^verbatim>\<open>trim()\<close> strips and \<^verbatim>\<open>\s\<close> matches: ECMAScript WhiteSpace
  (TAB, VT, FF, SP, NBSP, ZWNBSP and the category Zs) together with LineTerminator
  (LF, CR, LS, PS).
\<close>

definition isWhiteSpace :: "nat \<Rightarrow> bool" where
  "isWhiteSpace c \<longleftrightarrow>
     c = 0x09 \<or> c = 0x0A \<or> c = 0x0B \<or> c = 0x0C \<or> c = 0x0D \<or> c = 0x20 \<or> c = 0xA0 \<or>
     c = 0x1680 \<or> (0x2000 \<le> c \<and> c \<le> 0x200A) \<or> c = 0x2028 \<or> c = 0x2029 \<or>
     c = 0x202F \<or> c = 0x205F \<or> c = 0x3000 \<or> c = 0xFEFF"

text \<open>The characters \<^verbatim>\<open>.\<close> refuses (no \<^verbatim>\<open>s\<close> flag): the line terminators.\<close>

definition isLineTerminator :: "nat \<Rightarrow> bool" where
  "isLineTerminator c \<longleftrightarrow> c = 0x0A \<or> c = 0x0D \<or> c = 0x2028 \<or> c = 0x2029"

text \<open>\<^verbatim>\<open>\d\<close>: the ASCII digits.\<close>

definition isDigit :: "nat \<Rightarrow> bool" where
  "isDigit c \<longleftrightarrow> 0x30 \<le> c \<and> c \<le> 0x39"

definition trim :: "ustring \<Rightarrow> ustring" where
  "trim s = rev (dropWhile isWhiteSpace (rev (dropWhile isWhiteSpace s)))"

text \<open>\<^verbatim>\<open>s.substring(1)\<close>.\<close>

definition substring1 :: "ustring \<Rightarrow> ustring" where
  "substring1 s = drop 1 s"

text \<open>\<^verbatim>\<open>xs.join(sep)\<close>.\<close>

fun js_join :: "ustring \<Rightarrow> ustring list \<Rightarrow> ustring" where
  "js_join sep [] = []"
| "js_join sep [x] = x"
| "js_join sep (x # y # ys) = x @ sep @ js_join sep (y # ys)"

text \<open>
  \<^verbatim>\<open>s.split(regex)\<close> without a limit, for a regular expression without capture groups.
  The regular expression is given by its matcher \<open>m\<close>: applied to the part of the string
  that starts at position \<open>q\<close>, it returns the length of the match anchored there, or
  \<open>None\<close>. The loop keeps \<open>seg\<close>, the code units between the end \<open>p\<close> of the last match
  and \<open>q\<close>, in reverse. A match that ends at \<open>p\<close> (an empty match at \<open>q = p\<close>) is
  skipped, as the language specification says.
\<close>

function split_loop :: "(ustring \<Rightarrow> nat option) \<Rightarrow> ustring \<Rightarrow> ustring \<Rightarrow> ustring list" where
  "split_loop m seg [] = [rev seg]"
| "split_loop m seg (c # cs) =
     (case m (c # cs) of
        None \<Rightarrow> split_loop m (c # seg) cs
      | Some n \<Rightarrow>
          if min n (length (c # cs)) = 0 \<and> seg = [] then split_loop m (c # seg) cs
          else rev seg # split_loop m [] (drop n (c # cs)))"
  by pat_completeness auto
termination
  by (relation "measure (\<lambda>(m, seg, s). 2 * length s + (if seg = [] then 0 else 1))") auto

definition js_split :: "(ustring \<Rightarrow> nat option) \<Rightarrow> ustring \<Rightarrow> ustring list" where
  "js_split m s =
     (if s = [] then (case m [] of None \<Rightarrow> [[]] | Some _ \<Rightarrow> [])
      else split_loop m [] s)"

section \<open>The text normalizer\<close>

text \<open>\<^verbatim>\<open>str.replace(/[class]/g, f)\<close> for a class of single code units.\<close>

definition replace_all :: "(nat \<Rightarrow> bool) \<Rightarrow> (nat \<Rightarrow> nat) \<Rightarrow> ustring \<Rightarrow> ustring" where
  "replace_all P f s = map (\<lambda>c. if P c then f c else c) s"

text \<open>
  \<^verbatim>\<open>toHalfWidth\<close>: the five replacements in the order of the source. The first maps
  U+FF01..U+FF5E down by 0xFEE0; then the full-width space, solidus and parentheses.
\<close>

definition toHalfWidth :: "ustring \<Rightarrow> ustring" where
  "toHalfWidth str =
     replace_all (\<lambda>c. c = 0xFF09) (\<lambda>c. 0x29)
       (replace_all (\<lambda>c. c = 0xFF08) (\<lambda>c. 0x28)
         (replace_all (\<lambda>c. c = 0xFF0F) (\<lambda>c. 0x2F)
           (replace_all (\<lambda>c. c = 0x3000) (\<lambda>c. 0x20)
             (replace_all (\<lambda>c. 0xFF01 \<le> c \<and> c \<le> 0xFF5E) (\<lambda>c. c - 0xFEE0) str))))"

section \<open>The regular expressions of the parser\<close>

text \<open>
  \<^verbatim>\<open>\d{1,2}\<close>, greedy: the leading digits, two at most. Where the pattern goes on with
  \<^verbatim>\<open>/\<close>, giving back the second digit cannot help: the next code unit would be that
  digit. Where it goes on with the optional group, the longest choice succeeds.
\<close>

definition digits12 :: "ustring \<Rightarrow> ustring" where
  "digits12 s = takeWhile isDigit (take 2 s)"

text \<open>\<^verbatim>\<open>(?:\(.\))?\<close>, greedy: the parenthesised code unit when it is there.\<close>

fun weekday_group :: "ustring \<Rightarrow> ustring" where
  "weekday_group (a # b # c # rest) =
     (if a = 0x28 \<and> \<not> isLineTerminator b \<and> c = 0x29 then [a, b, c] else [])"
| "weekday_group s = []"

text \<open>
  \<^verbatim>\<open>normalizedText.match(/^(\d{1,2}\/\d{1,2}(?:\(.\))?)/)\<close>: \<open>None\<close> for \<^verbatim>\<open>null\<close>, otherwise
  the first capture group.
\<close>

definition dateMatch :: "ustring \<Rightarrow> ustring option" where
  "dateMatch s =
     (let d1 = digits12 s; r1 = drop (length d1) s in
      if d1 = [] then None
      else case r1 of
        [] \<Rightarrow> None
      | c # r2 \<Rightarrow>
          if c \<noteq> 0x2F then None
          else let d2 = digits12 r2; r3 = drop (length d2) r2 in
            if d2 = [] then None
            else Some (d1 @ [0x2F] @ d2 @ weekday_group r3))"

text \<open>\<^verbatim>\<open>rawText.match(/^([\<dots>])/)\<close> over the four marker glyphs U+25C9, U+25CE, U+25C7, U+2606.\<close>

definition isSymbol :: "nat \<Rightarrow> bool" where
  "isSymbol c \<longleftrightarrow> c = 0x25C9 \<or> c = 0x25CE \<or> c = 0x25C7 \<or> c = 0x2606"

definition symbolMatch :: "ustring \<Rightarrow> ustring option" where
  "symbolMatch s = (case s of [] \<Rightarrow> None | c # cs \<Rightarrow> if isSymbol c then Some [c] else None)"

text \<open>\<^verbatim>\<open>/\s+/\<close> anchored at the start of \<open>s\<close>.\<close>

definition match_spaces :: "ustring \<Rightarrow> nat option" where
  "match_spaces s =
     (let n = length (takeWhile isWhiteSpace s) in if n = 0 then None else Some n)"

text \<open>\<^verbatim>\<open>(?:\<dots>)\<close> over the four arrows U+21D2, U+2192, \<^verbatim>\<open>=>\<close>, \<^verbatim>\<open>->\<close>, in this order.\<close>

fun arrowGlyph :: "ustring \<Rightarrow> nat option" where
  "arrowGlyph [] = None"
| "arrowGlyph [c] = (if c = 0x21D2 then Some 1 else if c = 0x2192 then Some 1 else None)"
| "arrowGlyph (c # d # cs) =
     (if c = 0x21D2 then Some 1
      else if c = 0x2192 then Some 1
      else if c = 0x3D \<and> d = 0x3E then Some 2
      else if c = 0x2D \<and> d = 0x3E then Some 2
      else None)"

text \<open>
  \<^verbatim>\<open>arrowRegex\<close> anchored at the start of \<open>s\<close>: the longest run of white space, an
  arrow, the longest run of white space. A shorter first run leaves a white-space code
  unit where the arrow must start, so backtracking finds nothing more.
\<close>

definition arrowRegex :: "ustring \<Rightarrow> nat option" where
  "arrowRegex s =
     (let n1 = length (takeWhile isWhiteSpace s); r = drop n1 s in
      case arrowGlyph r of
        None \<Rightarrow> None
      | Some g \<Rightarrow> Some (n1 + g + length (takeWhile isWhiteSpace (drop g r))))"

section \<open>The parser\<close>

text \<open>
  \<^verbatim>\<open>parseCancellationHtml\<close> is in the repository twice, in \<^verbatim>\<open>src/api/parser.ts\<close>
  over cheerio and in \<^verbatim>\<open>src/unnamed/part_000\<close> over node-html-parser. The two differ
  in how they ask the HTML library for the \<^verbatim>\<open>p\<close> elements, their text and their
  \<^verbatim>\<open>mark\<close> descendants, and in null-safe accessors that change no value; the model
  below is both. A record keeps an optional field as \<open>None\<close> while the source has not
  assigned it.
\<close>

record CancellationItem =
  date :: ustring
  type :: ustring
  symbol :: ustring
  target_class :: ustring
  period :: ustring
  subject :: ustring
  subject_from :: "ustring option"
  subject_to :: "ustring option"
  raw_text :: ustring

text \<open>
  What the HTML library hands over for one \<^verbatim>\<open>p\<close> element: its text and whether a
  \<^verbatim>\<open>mark\<close> element lies inside it.
\<close>

record Paragraph =
  p_text :: ustring
  p_mark :: bool

text \<open>The table \<^verbatim>\<open>SYMBOLS\<close> and the two literals the parser falls back to.\<close>

definition SYMBOLS :: "(ustring \<times> ustring) list" where
  "SYMBOLS =
     [([0x25C9], [0x4F11, 0x8B1B]),
      ([0x25CE], [0x88DC, 0x8B1B]),
      ([0x25C7], [0x9060, 0x9694]),
      ([0x2606], [0x5909, 0x66F4])]"

definition type_other :: ustring where
  "type_other = [0x305D, 0x306E, 0x4ED6]"

definition date_unknown :: ustring where
  "date_unknown = [0x65E5, 0x4ED8, 0x4E0D, 0x660E]"

text \<open>\<^verbatim>\<open>a || b\<close> on strings, and the truth value of a string that may be undefined.\<close>

definition or_else :: "ustring \<Rightarrow> ustring \<Rightarrow> ustring" where
  "or_else a b = (if a \<noteq> [] then a else b)"

definition truthy :: "ustring option \<Rightarrow> bool" where
  "truthy v = (case v of None \<Rightarrow> False | Some s \<Rightarrow> s \<noteq> [])"

text \<open>The condition on \<^verbatim>\<open>parts[1]\<close>: a digit, U+9650, or U+30B3 U+30DE.\<close>

definition isPeriodToken :: "ustring \<Rightarrow> bool" where
  "isPeriodToken t \<longleftrightarrow>
     list_ex isDigit t \<or> js_includes t [0x9650] \<or> js_includes t [0x30B3, 0x30DE]"

definition isLinkOrDescription :: "ustring \<Rightarrow> bool" where
  "isLinkOrDescription t \<longleftrightarrow>
     js_includes t [0x65E5, 0x7A0B] \<or> js_includes t [0x306B, 0x3064, 0x3044, 0x3066]"

definition isDateLine :: "Paragraph \<Rightarrow> bool" where
  "isDateLine p \<longleftrightarrow>
     (let normalizedText = toHalfWidth (trim (p_text p)) in
      p_mark p \<or> (dateMatch normalizedText \<noteq> None \<and> \<not> isLinkOrDescription normalizedText))"

text \<open>The tokens of a record line: \<^verbatim>\<open>content\<close> and \<^verbatim>\<open>parts\<close>.\<close>

definition content_of :: "ustring \<Rightarrow> ustring" where
  "content_of rawText = toHalfWidth (trim (substring1 rawText))"

definition parts_of :: "ustring \<Rightarrow> ustring list" where
  "parts_of content = js_split match_spaces content"

text \<open>The body of \<^verbatim>\<open>if (symbolMatch)\<close>: the record built from a record line.\<close>

definition build_item :: "ustring \<Rightarrow> ustring \<Rightarrow> ustring \<Rightarrow> CancellationItem" where
  "build_item currentDate symb rawText =
     (let content = content_of rawText;
          parts = parts_of content;
          targetClass = or_else (case parts of [] \<Rightarrow> [] | t # ts \<Rightarrow> t) [];
          isPeriod = (length parts > 1 \<and> isPeriodToken (parts ! 1));
          period = (if isPeriod then parts ! 1 else []);
          subjectStartIndex = (if isPeriod then 2 else 1);
          subject = js_join [0x20] (drop subjectStartIndex parts);
          splitSubjects = js_split arrowRegex subject;
          subjectFrom = (if length splitSubjects > 1 then Some (splitSubjects ! 0) else None);
          subjectTo = (if length splitSubjects > 1
                       then Some (js_join [0x21D2] (drop 1 splitSubjects)) else None);
          item = \<lparr> date = or_else currentDate date_unknown,
                   type = (case map_of SYMBOLS symb of
                             None \<Rightarrow> type_other
                           | Some v \<Rightarrow> or_else v type_other),
                   symbol = symb,
                   target_class = targetClass,
                   period = period,
                   subject = subject,
                   subject_from = None,
                   subject_to = None,
                   raw_text = symb @ content \<rparr>
      in if truthy subjectFrom \<and> truthy subjectTo
         then item \<lparr> subject_from := subjectFrom, subject_to := subjectTo \<rparr>
         else item)"

text \<open>
  One turn of the loop over the paragraphs. The state is \<^verbatim>\<open>currentDate\<close> and
  \<^verbatim>\<open>results\<close>; \<^verbatim>\<open>results.push(item)\<close> appends at the end.
\<close>

definition process_paragraph ::
    "Paragraph \<Rightarrow> ustring \<times> CancellationItem list \<Rightarrow> ustring \<times> CancellationItem list" where
  "process_paragraph p st =
     (let currentDate = fst st; results = snd st;
          rawText = trim (p_text p);
          normalizedText = toHalfWidth rawText
      in if isDateLine p then
           (case dateMatch normalizedText of
              Some d \<Rightarrow> (d, results)
            | None \<Rightarrow> (filter (\<lambda>c. \<not> isWhiteSpace c) normalizedText, results))
         else
           (case symbolMatch rawText of
              Some symb \<Rightarrow> (currentDate, results @ [build_item currentDate symb rawText])
            | None \<Rightarrow> (currentDate, results)))"

text \<open>
  \<^verbatim>\<open>parseCancellationHtml\<close>, over the list of \<^verbatim>\<open>p\<close> elements of the document in
  document order.
\<close>

definition parse_from :: "ustring \<Rightarrow> Paragraph list \<Rightarrow> ustring \<times> CancellationItem list" where
  "parse_from d ps = fold process_paragraph ps (d, [])"

definition parseCancellationHtml :: "Paragraph list \<Rightarrow> CancellationItem list" where
  "parseCancellationHtml ps = snd (parse_from [] ps)"

text \<open>
  Names for what one turn of the loop does: whether a paragraph is a record line, the
  record it appends when the date is \<open>d\<close>, and the value of \<^verbatim>\<open>currentDate\<close> when the
  loop reaches the paragraph at index \<open>i\<close>.
\<close>

definition isRecordLine :: "Paragraph \<Rightarrow> bool" where
  "isRecordLine p \<longleftrightarrow> \<not> isDateLine p \<and> symbolMatch (trim (p_text p)) \<noteq> None"

definition emitted :: "ustring \<Rightarrow> Paragraph \<Rightarrow> CancellationItem option" where
  "emitted d p = (case snd (process_paragraph p (d, [])) of [] \<Rightarrow> None | r # rs \<Rightarrow> Some r)"

definition date_before :: "Paragraph list \<Rightarrow> nat \<Rightarrow> ustring" where
  "date_before ps i = fst (parse_from [] (take i ps))"

section \<open>The handler\<close>
















section \<open>Notions used in the statements\<close>

text \<open>The indices of the record lines of a document, ascending.\<close>

definition record_indices :: "Paragraph list \<Rightarrow> nat list" where
  "record_indices ps = filter (\<lambda>i. isRecordLine (ps ! i)) [0..<length ps]"

text \<open>
  The condition on the second token in the words of the specification: it contains a
  digit, or the substring U+9650, or the substring U+30B3 U+30DE.
\<close>

definition spec_period_token :: "ustring \<Rightarrow> bool" where
  "spec_period_token t \<longleftrightarrow>
     (\<exists>c\<in>set t. 0x30 \<le> c \<and> c \<le> 0x39) \<or>
     (\<exists>a b. t = a @ [0x9650] @ b) \<or>
     (\<exists>a b. t = a @ [0x30B3, 0x30DE] @ b)"

text \<open>The four arrow notations: U+21D2, U+2192, \<^verbatim>\<open>=>\<close> and \<^verbatim>\<open>->\<close>.\<close>

definition arrows :: "ustring set" where
  "arrows = {[0x21D2], [0x2192], [0x3D, 0x3E], [0x2D, 0x3E]}"

text \<open>A string without white space at either end.\<close>

definition trimmed :: "ustring \<Rightarrow> bool" where
  "trimmed s \<longleftrightarrow> s = [] \<or> (\<not> isWhiteSpace (hd s) \<and> \<not> isWhiteSpace (last s))"

section \<open>Example documents\<close>

definition para :: "ustring \<Rightarrow> bool \<Rightarrow> Paragraph" where
  "para t m = \<lparr> p_text = t, p_mark = m \<rparr>"

text \<open>
  A marked date paragraph in full-width characters, a cancellation with a period, and a
  change of subject with an arrow, each with the record it gives under the date \<open>d\<close>.
\<close>

definition ex_date :: Paragraph where
  "ex_date = para [0xFF11, 0xFF0F, 0xFF16, 0xFF08, 0x706B, 0xFF09] True"

definition ex_cancel :: Paragraph where
  "ex_cancel = para ([0x25C9] @ ascii ''1-A 3'' @ [0x9650] @ ascii '' English'') False"

definition ex_cancel_item :: "ustring \<Rightarrow> CancellationItem" where
  "ex_cancel_item d =
     \<lparr> date = d, type = [0x4F11, 0x8B1B], symbol = [0x25C9],
       target_class = ascii ''1-A'', period = [0x33, 0x9650], subject = ascii ''English'',
       subject_from = None, subject_to = None,
       raw_text = [0x25C9] @ ascii ''1-A 3'' @ [0x9650] @ ascii '' English'' \<rparr>"

definition ex_change :: Paragraph where
  "ex_change = para ([0x2606] @ ascii ''2-B '' @ [0x5FDC, 0x7528, 0x21D2, 0x6570, 0x5B66]) False"

definition ex_change_item :: "ustring \<Rightarrow> CancellationItem" where
  "ex_change_item d =
     \<lparr> date = d, type = [0x5909, 0x66F4], symbol = [0x2606],
       target_class = ascii ''2-B'', period = [],
       subject = [0x5FDC, 0x7528, 0x21D2, 0x6570, 0x5B66],
       subject_from = Some [0x5FDC, 0x7528], subject_to = Some [0x6570, 0x5B66],
       raw_text = [0x2606] @ ascii ''2-B '' @ [0x5FDC, 0x7528, 0x21D2, 0x6570, 0x5B66] \<rparr>"

text \<open>A paragraph that starts like a date and holds the word U+65E5 U+7A0B, marked or not.\<close>

definition ex_schedule :: "bool \<Rightarrow> Paragraph" where
  "ex_schedule m = para (ascii ''1/6'' @ [0x65E5, 0x7A0B]) m"

text \<open>A marked paragraph of white space only.\<close>

definition ex_blank :: Paragraph where
  "ex_blank = para [0x20, 0x3000, 0x0A] True"





text \<open>A record line whose subject ends with an arrow, and the record it gives.\<close>

definition ex_dangling :: Paragraph where
  "ex_dangling = para ([0x25C9] @ ascii ''1-A A'' @ [0x21D2]) False"

definition ex_dangling_item :: CancellationItem where
  "ex_dangling_item =
     \<lparr> date = date_unknown, type = [0x4F11, 0x8B1B], symbol = [0x25C9],
       target_class = ascii ''1-A'', period = [], subject = [0x41, 0x21D2],
       subject_from = None, subject_to = None,
       raw_text = [0x25C9] @ ascii ''1-A A'' @ [0x21D2] \<rparr>"

text \<open>
  Two record lines that differ in the white space between the first two tokens, and the
  record they give but for its \<open>raw_text\<close>.
\<close>

definition ex_wide :: Paragraph where
  "ex_wide = para ([0x2606] @ ascii ''2-B  3 X'') False"

definition ex_narrow :: Paragraph where
  "ex_narrow = para ([0x2606] @ ascii ''2-B 3 X'') False"

definition ex_spaced_item :: "ustring \<Rightarrow> CancellationItem" where
  "ex_spaced_item raw =
     \<lparr> date = date_unknown, type = [0x5909, 0x66F4], symbol = [0x2606],
       target_class = ascii ''2-B'', period = [0x33], subject = [0x58],
       subject_from = None, subject_to = None, raw_text = raw \<rparr>"

section \<open>The loop, one paragraph at a time\<close>

lemma process_paragraph_acc:
  "process_paragraph p (d, acc) =
     (fst (process_paragraph p (d, [])), acc @ snd (process_paragraph p (d, [])))"
  by (simp add: process_paragraph_def Let_def split: option.splits)

lemma fold_process_acc:
  "fold process_paragraph ps (d, acc) =
     (fst (parse_from d ps), acc @ snd (parse_from d ps))"
proof (induction ps arbitrary: d acc)
  case Nil
  show ?case by (simp add: parse_from_def)
next
  case (Cons p ps)
  obtain d' e where st: "process_paragraph p (d, []) = (d', e)"
    by (cases "process_paragraph p (d, [])")
  have a: "process_paragraph p (d, acc) = (d', acc @ e)"
    using process_paragraph_acc [of p d acc] st by simp
  have "fold process_paragraph (p # ps) (d, acc) = fold process_paragraph ps (d', acc @ e)"
    using a by simp
  also have "\<dots> = (fst (parse_from d' ps), (acc @ e) @ snd (parse_from d' ps))"
    by (rule Cons.IH)
  finally have l: "fold process_paragraph (p # ps) (d, acc) =
      (fst (parse_from d' ps), acc @ e @ snd (parse_from d' ps))" by simp
  have "parse_from d (p # ps) = fold process_paragraph ps (d', e)"
    using st by (simp add: parse_from_def)
  also have "\<dots> = (fst (parse_from d' ps), e @ snd (parse_from d' ps))"
    by (rule Cons.IH)
  finally show ?case using l by simp
qed

lemma parse_from_Nil: "parse_from d [] = (d, [])"
  by (simp add: parse_from_def)

lemma parse_from_Cons:
  "parse_from d (p # ps) =
     (fst (parse_from (fst (process_paragraph p (d, []))) ps),
      snd (process_paragraph p (d, [])) @ snd (parse_from (fst (process_paragraph p (d, []))) ps))"
proof -
  have "parse_from d (p # ps) = fold process_paragraph ps (process_paragraph p (d, []))"
    by (simp add: parse_from_def)
  also have "\<dots> = fold process_paragraph ps
       (fst (process_paragraph p (d, [])), snd (process_paragraph p (d, [])))"
    by simp
  finally show ?thesis by (simp only: fold_process_acc)
qed

lemma parse_from_append:
  "parse_from d (xs @ ys) =
     (fst (parse_from (fst (parse_from d xs)) ys),
      snd (parse_from d xs) @ snd (parse_from (fst (parse_from d xs)) ys))"
proof -
  have "parse_from d (xs @ ys) = fold process_paragraph ys (parse_from d xs)"
    by (simp add: parse_from_def)
  also have "\<dots> = fold process_paragraph ys (fst (parse_from d xs), snd (parse_from d xs))"
    by simp
  finally show ?thesis by (simp only: fold_process_acc)
qed

text \<open>The three outcomes of a paragraph: a new date, a record, nothing.\<close>

lemma step_date_line:
  "isDateLine p \<Longrightarrow> snd (process_paragraph p (d, [])) = []"
  by (simp add: process_paragraph_def Let_def split: option.splits)

lemma step_not_date_line:
  "\<not> isDateLine p \<Longrightarrow> fst (process_paragraph p (d, rs)) = d"
  by (simp add: process_paragraph_def Let_def split: option.splits)

lemma step_record_line:
  "\<not> isDateLine p \<Longrightarrow> symbolMatch (trim (p_text p)) = Some symb \<Longrightarrow>
     process_paragraph p (d, rs) = (d, rs @ [build_item d symb (trim (p_text p))])"
  by (simp add: process_paragraph_def Let_def)

lemma step_ignored:
  "\<not> isDateLine p \<Longrightarrow> symbolMatch (trim (p_text p)) = None \<Longrightarrow>
     process_paragraph p (d, rs) = (d, rs)"
  by (simp add: process_paragraph_def Let_def)

lemma step_emits:
  "r \<in> set (snd (process_paragraph p (d, []))) \<Longrightarrow>
     \<not> isDateLine p \<and> (\<exists>symb. symbolMatch (trim (p_text p)) = Some symb \<and>
        r = build_item d symb (trim (p_text p)))"
  by (auto simp add: process_paragraph_def Let_def split: option.splits if_splits)

lemma parse_from_emits:
  "r \<in> set (snd (parse_from d ps)) \<Longrightarrow>
     \<exists>p d' symb. p \<in> set ps \<and> \<not> isDateLine p \<and> symbolMatch (trim (p_text p)) = Some symb \<and>
        r = build_item d' symb (trim (p_text p))"
proof (induction ps arbitrary: d)
  case Nil
  then show ?case by (simp add: parse_from_Nil)
next
  case (Cons p ps)
  from Cons.prems have "r \<in> set (snd (process_paragraph p (d, []))) \<or>
      r \<in> set (snd (parse_from (fst (process_paragraph p (d, []))) ps))"
    by (simp add: parse_from_Cons)
  then show ?case
  proof
    assume "r \<in> set (snd (process_paragraph p (d, [])))"
    from step_emits [OF this] show ?thesis by auto
  next
    assume "r \<in> set (snd (parse_from (fst (process_paragraph p (d, []))) ps))"
    from Cons.IH [OF this] show ?thesis by auto
  qed
qed

lemma parse_emits:
  "r \<in> set (parseCancellationHtml ps) \<Longrightarrow>
     \<exists>p d' symb. p \<in> set ps \<and> \<not> isDateLine p \<and> symbolMatch (trim (p_text p)) = Some symb \<and>
        r = build_item d' symb (trim (p_text p))"
  unfolding parseCancellationHtml_def by (rule parse_from_emits)

text \<open>The fields of a built record.\<close>

lemma build_item_date: "date (build_item d symb raw) = or_else d date_unknown"
  by (simp add: build_item_def Let_def)

lemma build_item_symbol: "symbol (build_item d symb raw) = symb"
  by (simp add: build_item_def Let_def)

lemma build_item_raw_text: "raw_text (build_item d symb raw) = symb @ content_of raw"
  by (simp add: build_item_def Let_def)

lemma build_item_type:
  "type (build_item d symb raw) =
     (case map_of SYMBOLS symb of None \<Rightarrow> type_other | Some v \<Rightarrow> or_else v type_other)"
  by (simp add: build_item_def Let_def)

lemma build_item_target_class:
  "target_class (build_item d symb raw) =
     (case parts_of (content_of raw) of [] \<Rightarrow> [] | t # ts \<Rightarrow> t)"
  by (simp add: build_item_def Let_def or_else_def split: list.splits)

lemma build_item_period:
  "period (build_item d symb raw) =
     (let parts = parts_of (content_of raw) in
      if length parts > 1 \<and> isPeriodToken (parts ! 1) then parts ! 1 else [])"
  by (simp add: build_item_def Let_def)

lemma build_item_subject:
  "subject (build_item d symb raw) =
     (let parts = parts_of (content_of raw) in
      js_join [0x20]
        (drop (if length parts > 1 \<and> isPeriodToken (parts ! 1) then 2 else 1) parts))"
  by (simp add: build_item_def Let_def)

lemma build_item_from_to:
  "(subject_from (build_item d symb raw), subject_to (build_item d symb raw)) =
     (let segs = js_split arrowRegex (subject (build_item d symb raw)) in
      if length segs > 1 \<and> segs ! 0 \<noteq> [] \<and> js_join [0x21D2] (drop 1 segs) \<noteq> []
      then (Some (segs ! 0), Some (js_join [0x21D2] (drop 1 segs)))
      else (None, None))"
  by (auto simp add: build_item_def Let_def truthy_def)

section \<open>The example documents, evaluated\<close>

lemmas eval_defs = para_def ascii_def trim_def isWhiteSpace_def toHalfWidth_def replace_all_def
  isDateLine_def dateMatch_def digits12_def isDigit_def isLineTerminator_def
  isLinkOrDescription_def symbolMatch_def isSymbol_def content_of_def parts_of_def
  substring1_def js_split_def match_spaces_def arrowRegex_def isPeriodToken_def or_else_def
  truthy_def SYMBOLS_def type_other_def Let_def

lemma step_ex_date:
  "process_paragraph ex_date (d, rs) = ([0x31, 0x2F, 0x36, 0x28, 0x706B, 0x29], rs)"
  by (simp add: process_paragraph_def ex_date_def eval_defs)

lemma ex_cancel_line:
  "\<not> isDateLine ex_cancel"
  "trim (p_text ex_cancel) =
     [0x25C9, 0x31, 0x2D, 0x41, 0x20, 0x33, 0x9650, 0x20, 0x45, 0x6E, 0x67, 0x6C, 0x69, 0x73, 0x68]"
  by (simp_all add: ex_cancel_def eval_defs)

lemma ex_cancel_build:
  "build_item d [0x25C9]
     [0x25C9, 0x31, 0x2D, 0x41, 0x20, 0x33, 0x9650, 0x20, 0x45, 0x6E, 0x67, 0x6C, 0x69, 0x73, 0x68] =
   ex_cancel_item (or_else d date_unknown)"
  apply (simp add: build_item_def ex_cancel_item_def)
  apply (simp add: eval_defs)
  done

lemma step_ex_cancel:
  "process_paragraph ex_cancel (d, rs) = (d, rs @ [ex_cancel_item (or_else d date_unknown)])"
proof -
  have "symbolMatch (trim (p_text ex_cancel)) = Some [0x25C9]"
    by (simp add: ex_cancel_line symbolMatch_def isSymbol_def)
  from step_record_line [OF ex_cancel_line(1) this]
  show ?thesis by (simp add: ex_cancel_line(2) ex_cancel_build)
qed

lemma ex_change_line:
  "\<not> isDateLine ex_change"
  "trim (p_text ex_change) =
     [0x2606, 0x32, 0x2D, 0x42, 0x20, 0x5FDC, 0x7528, 0x21D2, 0x6570, 0x5B66]"
  by (simp_all add: ex_change_def eval_defs)

lemma ex_change_build:
  "build_item d [0x2606] [0x2606, 0x32, 0x2D, 0x42, 0x20, 0x5FDC, 0x7528, 0x21D2, 0x6570, 0x5B66] =
   ex_change_item (or_else d date_unknown)"
  apply (simp add: build_item_def ex_change_item_def)
  apply (simp add: eval_defs)
  done

lemma step_ex_change:
  "process_paragraph ex_change (d, rs) = (d, rs @ [ex_change_item (or_else d date_unknown)])"
proof -
  have "symbolMatch (trim (p_text ex_change)) = Some [0x2606]"
    by (simp add: ex_change_line symbolMatch_def isSymbol_def)
  from step_record_line [OF ex_change_line(1) this]
  show ?thesis by (simp add: ex_change_line(2) ex_change_build)
qed

lemma parse_change_cancel:
  "parseCancellationHtml [ex_change, ex_cancel] =
     [ex_change_item date_unknown, ex_cancel_item date_unknown]"
  by (simp add: parseCancellationHtml_def parse_from_def step_ex_change step_ex_cancel
      or_else_def)

lemma parse_date_cancel:
  "parseCancellationHtml [ex_date, ex_cancel] =
     [ex_cancel_item [0x31, 0x2F, 0x36, 0x28, 0x706B, 0x29]]"
  by (simp add: parseCancellationHtml_def parse_from_def step_ex_date step_ex_cancel
      or_else_def)

section \<open>The date of a record\<close>

lemma date_unknown_nonempty: "or_else d date_unknown \<noteq> []"
  by (simp add: or_else_def date_unknown_def)

lemma no_date_lines:
  "\<forall>p\<in>set ps. \<not> isDateLine p \<Longrightarrow>
     fst (parse_from d ps) = d \<and>
     (\<forall>r\<in>set (snd (parse_from d ps)). date r = or_else d date_unknown)"
proof (induction ps arbitrary: d)
  case Nil
  show ?case by (simp add: parse_from_Nil)
next
  case (Cons p ps)
  from Cons.prems have np: "\<not> isDateLine p" and rest: "\<forall>q\<in>set ps. \<not> isDateLine q"
    by simp_all
  have d': "fst (process_paragraph p (d, [])) = d"
    using np by (rule step_not_date_line)
  have here: "\<forall>r\<in>set (snd (process_paragraph p (d, []))). date r = or_else d date_unknown"
    by (auto dest!: step_emits simp add: build_item_date)
  from Cons.IH [OF rest, of d] here d' show ?case
    by (auto simp add: parse_from_Cons)
qed

text \<open>
  Claim C4. In a document without date paragraphs every record has the date
  \<open>date_unknown\<close>, and in every document no record has the empty string as its date.
\<close>

theorem date_never_empty:
  "((\<forall>p\<in>set ps. \<not> isDateLine p) \<longrightarrow>
      (\<forall>r\<in>set (parseCancellationHtml ps). date r = date_unknown)) \<and>
   (\<forall>r\<in>set (parseCancellationHtml ps). date r \<noteq> [])"
proof
  show "(\<forall>p\<in>set ps. \<not> isDateLine p) \<longrightarrow>
      (\<forall>r\<in>set (parseCancellationHtml ps). date r = date_unknown)"
    using no_date_lines [of ps "[]"] by (simp add: parseCancellationHtml_def or_else_def)
next
  show "\<forall>r\<in>set (parseCancellationHtml ps). date r \<noteq> []"
  proof
    fix r assume "r \<in> set (parseCancellationHtml ps)"
    then obtain d symb raw where r: "r = build_item d symb raw"
      using parse_emits by blast
    show "date r \<noteq> []"
      unfolding r by (simp add: build_item_date date_unknown_nonempty)
  qed
qed

theorem date_never_empty_witness:
  "\<not> isDateLine ex_change \<and> \<not> isDateLine ex_cancel \<and>
   ex_cancel_item date_unknown \<in> set (parseCancellationHtml [ex_change, ex_cancel]) \<and>
   date (ex_cancel_item date_unknown) = date_unknown \<and>
   date (ex_cancel_item date_unknown) \<noteq> []"
proof -
  from date_never_empty [of "[ex_change, ex_cancel]"] show ?thesis
    unfolding parse_change_cancel
    by (simp add: ex_change_line(1) ex_cancel_line(1) ex_cancel_item_def ex_change_item_def)
qed

section \<open>The optional fields\<close>

text \<open>
  Claim C3. In every record of every parse, \<open>subject_from\<close> and \<open>subject_to\<close> are both
  present or both absent. An absent field is \<open>None\<close>: the source never assigns it.
\<close>

theorem subject_from_to_together:
  "\<forall>r\<in>set (parseCancellationHtml ps). (subject_from r = None) = (subject_to r = None)"
proof
  fix r assume "r \<in> set (parseCancellationHtml ps)"
  then obtain d symb raw where r: "r = build_item d symb raw"
    using parse_emits by blast
  show "(subject_from r = None) = (subject_to r = None)"
    unfolding r by (simp add: build_item_def Let_def)
qed

theorem subject_from_to_together_witness:
  "ex_change_item date_unknown \<in> set (parseCancellationHtml [ex_change, ex_cancel]) \<and>
   subject_from (ex_change_item date_unknown) \<noteq> None \<and>
   subject_to (ex_change_item date_unknown) \<noteq> None \<and>
   ex_cancel_item date_unknown \<in> set (parseCancellationHtml [ex_change, ex_cancel]) \<and>
   subject_from (ex_cancel_item date_unknown) = None \<and>
   subject_to (ex_cancel_item date_unknown) = None"
proof -
  have a: "subject_from (ex_change_item date_unknown) \<noteq> None"
    by (simp add: ex_change_item_def)
  have b: "subject_to (ex_cancel_item date_unknown) = None"
    by (simp add: ex_cancel_item_def)
  from subject_from_to_together [of "[ex_change, ex_cancel]"] a b show ?thesis
    unfolding parse_change_cancel by simp
qed

section \<open>Symbol and type\<close>

text \<open>
  Claim C7. In every record the symbol is one of the four marker glyphs and the type is
  the entry of \<open>SYMBOLS\<close> for it; the fallback \<open>type_other\<close> never appears.
\<close>

theorem symbol_and_type:
  "\<forall>r\<in>set (parseCancellationHtml ps).
     symbol r \<in> {[0x25C9], [0x25CE], [0x25C7], [0x2606]} \<and>
     map_of SYMBOLS (symbol r) = Some (type r) \<and>
     type r \<noteq> type_other"
proof
  fix r assume "r \<in> set (parseCancellationHtml ps)"
  then obtain d symb raw where r: "r = build_item d symb raw"
    and m: "symbolMatch raw = Some symb"
    using parse_emits by blast
  from m have "symb \<in> {[0x25C9], [0x25CE], [0x25C7], [0x2606]}"
    by (auto simp add: symbolMatch_def isSymbol_def split: list.splits if_splits)
  then show "symbol r \<in> {[0x25C9], [0x25CE], [0x25C7], [0x2606]} \<and>
     map_of SYMBOLS (symbol r) = Some (type r) \<and> type r \<noteq> type_other"
    unfolding r build_item_symbol build_item_type
    by (auto simp add: SYMBOLS_def or_else_def type_other_def)
qed

theorem symbol_and_type_witness:
  "ex_cancel_item [0x31, 0x2F, 0x36, 0x28, 0x706B, 0x29]
     \<in> set (parseCancellationHtml [ex_date, ex_cancel]) \<and>
   symbol (ex_cancel_item [0x31, 0x2F, 0x36, 0x28, 0x706B, 0x29]) = [0x25C9] \<and>
   map_of SYMBOLS [0x25C9] =
     Some (type (ex_cancel_item [0x31, 0x2F, 0x36, 0x28, 0x706B, 0x29])) \<and>
   type (ex_cancel_item [0x31, 0x2F, 0x36, 0x28, 0x706B, 0x29]) \<noteq> type_other"
proof -
  have s: "symbol (ex_cancel_item [0x31, 0x2F, 0x36, 0x28, 0x706B, 0x29]) = [0x25C9]"
    by (simp add: ex_cancel_item_def)
  from symbol_and_type [of "[ex_date, ex_cancel]"] show ?thesis
    unfolding parse_date_cancel by (simp add: s)
qed

section \<open>The order of the records\<close>

lemma step_snd:
  "snd (process_paragraph p (d, [])) = (if isRecordLine p then [the (emitted d p)] else [])"
  by (simp add: emitted_def isRecordLine_def process_paragraph_def Let_def split: option.splits)

lemma parse_from_single:
  "parse_from d [p] = process_paragraph p (d, [])"
  by (simp add: parse_from_def)

lemma parse_from_indexed:
  "snd (parse_from d ps) =
     map (\<lambda>i. the (emitted (fst (parse_from d (take i ps))) (ps ! i)))
       (filter (\<lambda>i. isRecordLine (ps ! i)) [0..<length ps])"
proof (induction ps rule: rev_induct)
  case Nil
  show ?case by (simp add: parse_from_Nil)
next
  case (snoc p ps)
  let ?n = "length ps"
  let ?F = "\<lambda>i. the (emitted (fst (parse_from d (take i ps))) (ps ! i))"
  let ?F' = "\<lambda>i. the (emitted (fst (parse_from d (take i (ps @ [p])))) ((ps @ [p]) ! i))"
  let ?Q = "\<lambda>i. isRecordLine (ps ! i)"
  let ?Q' = "\<lambda>i. isRecordLine ((ps @ [p]) ! i)"
  have idx: "filter ?Q' [0..<?n] = filter ?Q [0..<?n]"
    by (rule filter_cong) (simp_all add: nth_append)
  have old: "map ?F' (filter ?Q [0..<?n]) = map ?F (filter ?Q [0..<?n])"
    by (rule map_cong) (simp_all add: nth_append)
  have last: "?Q' ?n = isRecordLine p" "?F' ?n = the (emitted (fst (parse_from d ps)) p)"
    by simp_all
  have "map ?F' (filter ?Q' [0..<length (ps @ [p])]) =
      map ?F' (filter ?Q' [0..<?n]) @ (if ?Q' ?n then [?F' ?n] else [])"
    by simp
  also have "\<dots> = map ?F (filter ?Q [0..<?n]) @
      (if isRecordLine p then [the (emitted (fst (parse_from d ps)) p)] else [])"
    unfolding idx old last ..
  also have "\<dots> = snd (parse_from d ps) @ snd (process_paragraph p (fst (parse_from d ps), []))"
    unfolding snoc.IH [symmetric] step_snd ..
  also have "\<dots> = snd (parse_from d (ps @ [p]))"
    by (simp add: parse_from_append parse_from_single)
  finally show ?case by (rule sym)
qed

text \<open>
  Claim C6. The output is the list of the records of the record lines, taken in the
  order of the paragraphs: the record at each ascending index of a record line is the
  one that paragraph appends under the date the loop holds when it reaches it.
\<close>

theorem records_in_paragraph_order:
  "parseCancellationHtml ps =
     map (\<lambda>i. the (emitted (date_before ps i) (ps ! i))) (record_indices ps) \<and>
   sorted_wrt (<) (record_indices ps)"
  by (simp add: parseCancellationHtml_def date_before_def record_indices_def parse_from_indexed
      sorted_wrt_filter)

section \<open>Paragraphs that look like dates\<close>

lemma ex_schedule_text:
  "toHalfWidth (trim (p_text (ex_schedule m))) = [0x31, 0x2F, 0x36, 0x65E5, 0x7A0B]"
  by (simp add: ex_schedule_def eval_defs)

lemma ex_schedule_match:
  "dateMatch [0x31, 0x2F, 0x36, 0x65E5, 0x7A0B] = Some [0x31, 0x2F, 0x36]"
  "js_includes [0x31, 0x2F, 0x36, 0x65E5, 0x7A0B] [0x65E5, 0x7A0B]"
  by (simp_all add: eval_defs)

text \<open>
  Claim C5, as stated, fails: a paragraph that starts like a date and contains the word
  for "schedule" is still a date line when it carries a \<^verbatim>\<open>mark\<close>, and it sets
  \<^verbatim>\<open>currentDate\<close> to the matched date.
\<close>

theorem schedule_paragraph_counterexample:
  "dateMatch (toHalfWidth (trim (p_text (ex_schedule True)))) = Some [0x31, 0x2F, 0x36] \<and>
   js_includes (toHalfWidth (trim (p_text (ex_schedule True)))) [0x65E5, 0x7A0B] \<and>
   isDateLine (ex_schedule True) \<and>
   fst (process_paragraph (ex_schedule True) ([], [])) = [0x31, 0x2F, 0x36]"
  unfolding ex_schedule_text
  apply (simp add: ex_schedule_match)
  apply (simp add: process_paragraph_def isDateLine_def Let_def ex_schedule_text ex_schedule_match)
  apply (simp add: ex_schedule_def para_def)
  done

text \<open>
  Claim C5, amended. A paragraph without a \<^verbatim>\<open>mark\<close> whose normalized text starts with
  the date pattern and contains the word for "schedule" is not a date line, and the loop
  leaves \<^verbatim>\<open>currentDate\<close> as it was.
\<close>

theorem schedule_paragraph_unmarked:
  "\<not> p_mark p \<and> dateMatch (toHalfWidth (trim (p_text p))) \<noteq> None \<and>
     js_includes (toHalfWidth (trim (p_text p))) [0x65E5, 0x7A0B] \<longrightarrow>
   \<not> isDateLine p \<and> fst (process_paragraph p (d, rs)) = d"
proof
  assume a: "\<not> p_mark p \<and> dateMatch (toHalfWidth (trim (p_text p))) \<noteq> None \<and>
     js_includes (toHalfWidth (trim (p_text p))) [0x65E5, 0x7A0B]"
  then have n: "\<not> isDateLine p"
    by (simp add: isDateLine_def Let_def isLinkOrDescription_def)
  from n step_not_date_line [OF n] show "\<not> isDateLine p \<and> fst (process_paragraph p (d, rs)) = d"
    by simp
qed

theorem schedule_paragraph_unmarked_witness:
  "\<not> p_mark (ex_schedule False) \<and>
   dateMatch (toHalfWidth (trim (p_text (ex_schedule False)))) \<noteq> None \<and>
   js_includes (toHalfWidth (trim (p_text (ex_schedule False)))) [0x65E5, 0x7A0B] \<and>
   \<not> isDateLine (ex_schedule False) \<and>
   fst (process_paragraph (ex_schedule False) ([0x31, 0x32, 0x2F, 0x31], [])) =
     [0x31, 0x32, 0x2F, 0x31]"
proof -
  have h: "\<not> p_mark (ex_schedule False) \<and>
     dateMatch (toHalfWidth (trim (p_text (ex_schedule False)))) \<noteq> None \<and>
     js_includes (toHalfWidth (trim (p_text (ex_schedule False)))) [0x65E5, 0x7A0B]"
    unfolding ex_schedule_text by (simp add: ex_schedule_match) (simp add: ex_schedule_def para_def)
  from schedule_paragraph_unmarked [of "ex_schedule False" "[0x31, 0x32, 0x2F, 0x31]" "[]"] h
  show ?thesis by simp
qed

section \<open>A marked paragraph without text\<close>

lemma trim_all_white:
  assumes "\<forall>c\<in>set (trim s). isWhiteSpace c"
  shows "trim s = []"
proof (rule ccontr)
  let ?zs = "dropWhile isWhiteSpace (rev (dropWhile isWhiteSpace s))"
  assume "trim s \<noteq> []"
  then have ne: "?zs \<noteq> []" by (simp add: trim_def)
  then have "\<not> isWhiteSpace (hd ?zs)" by (rule hd_dropWhile)
  moreover have "hd ?zs \<in> set (trim s)" using ne by (simp add: trim_def)
  ultimately show False using assms by blast
qed

lemma toHalfWidth_Nil: "toHalfWidth [] = []"
  by (simp add: toHalfWidth_def replace_all_def)

lemma dateMatch_Nil: "dateMatch [] = None"
  by (simp add: dateMatch_def digits12_def)

lemma ex_blank_line: "p_mark ex_blank" "trim (p_text ex_blank) = []"
  by (simp_all add: ex_blank_def para_def trim_def isWhiteSpace_def)

lemma step_blank_marked:
  assumes "p_mark p" "trim (p_text p) = []"
  shows "isDateLine p" "process_paragraph p (d, rs) = ([], rs)"
proof -
  show dl: "isDateLine p" using assms by (simp add: isDateLine_def)
  show "process_paragraph p (d, rs) = ([], rs)"
    by (simp add: process_paragraph_def dl assms(2) toHalfWidth_Nil dateMatch_Nil)
qed

lemma parse_after_blank:
  assumes "p_mark p" "trim (p_text p) = []" "\<forall>q\<in>set qs. \<not> isDateLine q"
  shows "parseCancellationHtml (pre @ p # qs @ rest) =
     parseCancellationHtml pre @ parseCancellationHtml qs @ parseCancellationHtml rest"
proof -
  have q: "fst (parse_from [] qs) = []"
    using no_date_lines [OF assms(3), of "[]"] by simp
  have s: "process_paragraph p (d, []) = ([], [])" for d
    by (rule step_blank_marked(2) [OF assms(1,2)])
  have "snd (parse_from d (p # qs @ rest)) = snd (parse_from [] qs) @ snd (parse_from [] rest)" for d
    unfolding parse_from_Cons s parse_from_append [of _ qs] by (simp add: q)
  then show ?thesis
    unfolding parseCancellationHtml_def parse_from_append [of _ pre] by simp
qed

text \<open>
  Claim C10. A paragraph with a \<^verbatim>\<open>mark\<close> whose trimmed text is empty (nothing but
  white space) does not match the date pattern, is a date line all the same, and sets
  \<^verbatim>\<open>currentDate\<close> to the empty string. The records of the paragraphs \<open>qs\<close> that
  follow it up to the next date line are those of \<open>qs\<close> parsed alone, each dated
  \<open>date_unknown\<close>, whatever dates came before in \<open>pre\<close>.
\<close>

theorem blank_marked_paragraph:
  "p_mark p \<and> (\<forall>c\<in>set (trim (p_text p)). isWhiteSpace c) \<and>
     (\<forall>q\<in>set qs. \<not> isDateLine q) \<longrightarrow>
     dateMatch (toHalfWidth (trim (p_text p))) = None \<and>
     isDateLine p \<and>
     process_paragraph p (d, rs) = ([], rs) \<and>
     parseCancellationHtml (pre @ p # qs @ rest) =
       parseCancellationHtml pre @ parseCancellationHtml qs @ parseCancellationHtml rest \<and>
     (\<forall>r\<in>set (parseCancellationHtml qs). date r = date_unknown)"
proof
  assume a: "p_mark p \<and> (\<forall>c\<in>set (trim (p_text p)). isWhiteSpace c) \<and>
    (\<forall>q\<in>set qs. \<not> isDateLine q)"
  from a have m: "p_mark p" by simp
  from a have "\<forall>c\<in>set (trim (p_text p)). isWhiteSpace c" by simp
  then have t: "trim (p_text p) = []" by (rule trim_all_white)
  from a have n: "\<forall>q\<in>set qs. \<not> isDateLine q" by simp
  have 1: "dateMatch (toHalfWidth (trim (p_text p))) = None"
    by (simp add: t toHalfWidth_Nil dateMatch_Nil)
  have 5: "\<forall>r\<in>set (parseCancellationHtml qs). date r = date_unknown"
    using no_date_lines [OF n, of "[]"] by (simp add: parseCancellationHtml_def or_else_def)
  from 1 step_blank_marked(1) [OF m t] step_blank_marked(2) [OF m t, of d rs]
    parse_after_blank [OF m t n, of pre rest] 5
  show "dateMatch (toHalfWidth (trim (p_text p))) = None \<and>
     isDateLine p \<and>
     process_paragraph p (d, rs) = ([], rs) \<and>
     parseCancellationHtml (pre @ p # qs @ rest) =
       parseCancellationHtml pre @ parseCancellationHtml qs @ parseCancellationHtml rest \<and>
     (\<forall>r\<in>set (parseCancellationHtml qs). date r = date_unknown)"
    by blast
qed

theorem blank_marked_paragraph_witness:
  "p_mark ex_blank \<and> trim (p_text ex_blank) = [] \<and>
   \<not> isDateLine ex_cancel \<and> \<not> isDateLine ex_change \<and>
   parseCancellationHtml [ex_date, ex_cancel] =
     [ex_cancel_item [0x31, 0x2F, 0x36, 0x28, 0x706B, 0x29]] \<and>
   parseCancellationHtml ([ex_date, ex_cancel] @ ex_blank # [ex_change, ex_cancel] @ []) =
     [ex_cancel_item [0x31, 0x2F, 0x36, 0x28, 0x706B, 0x29],
      ex_change_item date_unknown, ex_cancel_item date_unknown] \<and>
   date (ex_change_item date_unknown) = date_unknown \<and>
   date (ex_cancel_item date_unknown) = date_unknown"
proof -
  have h: "p_mark ex_blank \<and> (\<forall>c\<in>set (trim (p_text ex_blank)). isWhiteSpace c) \<and>
      (\<forall>q\<in>set [ex_change, ex_cancel]. \<not> isDateLine q)"
    by (simp add: ex_blank_line ex_cancel_line(1) ex_change_line(1))
  have e: "parseCancellationHtml [] = []"
    by (simp add: parseCancellationHtml_def parse_from_Nil)
  have f: "date (ex_change_item date_unknown) = date_unknown"
    "date (ex_cancel_item date_unknown) = date_unknown"
    by (simp_all add: ex_cancel_item_def ex_change_item_def)
  from blank_marked_paragraph
    [of ex_blank "[ex_change, ex_cancel]" "[]" "[]" "[ex_date, ex_cancel]" "[]"] h
  have "parseCancellationHtml ([ex_date, ex_cancel] @ ex_blank # [ex_change, ex_cancel] @ []) =
     parseCancellationHtml [ex_date, ex_cancel] @ parseCancellationHtml [ex_change, ex_cancel] @
     parseCancellationHtml []"
    by blast
  then show ?thesis
    unfolding parse_change_cancel parse_date_cancel e
    by (simp add: ex_blank_line ex_cancel_line(1) ex_change_line(1) f)
qed

section \<open>The period\<close>

lemma starts_with_iff: "starts_with s n \<longleftrightarrow> (\<exists>b. s = n @ b)"
  by (induction s n rule: starts_with.induct) auto

lemma js_includes_iff: "js_includes s n \<longleftrightarrow> (\<exists>a b. s = a @ n @ b)"
proof (induction s)
  case Nil
  show ?case by simp
next
  case (Cons c cs)
  show ?case
  proof
    assume "js_includes (c # cs) n"
    then consider "starts_with (c # cs) n" | "js_includes cs n" by auto
    then show "\<exists>a b. c # cs = a @ n @ b"
    proof cases
      case 1
      then obtain b where "c # cs = n @ b" by (auto simp add: starts_with_iff)
      then have "c # cs = [] @ n @ b" by simp
      then show ?thesis by blast
    next
      case 2
      then obtain a b where "cs = a @ n @ b" using Cons.IH by blast
      then have "c # cs = (c # a) @ n @ b" by simp
      then show ?thesis by blast
    qed
  next
    assume "\<exists>a b. c # cs = a @ n @ b"
    then obtain a b where e: "c # cs = a @ n @ b" by blast
    show "js_includes (c # cs) n"
    proof (cases a)
      case Nil
      with e have "starts_with (c # cs) n" by (auto simp add: starts_with_iff)
      then show ?thesis by simp
    next
      case (Cons x xs)
      with e have "cs = xs @ n @ b" by simp
      then have "js_includes cs n" using Cons.IH by blast
      then show ?thesis by simp
    qed
  qed
qed

lemma isPeriodToken_spec: "isPeriodToken t \<longleftrightarrow> spec_period_token t"
  by (simp add: isPeriodToken_def spec_period_token_def js_includes_iff list_ex_iff isDigit_def)

lemma record_line_step:
  "isRecordLine p \<Longrightarrow>
     \<exists>symb. process_paragraph p (d, rs) = (d, rs @ [build_item d symb (trim (p_text p))])"
  by (auto simp add: isRecordLine_def step_record_line)

text \<open>
  Claim C2. For a record line whose content has at least two tokens: when the second
  token contains a digit, or U+9650, or U+30B3 U+30DE, the period is that token and the
  subject is the tokens from index 2 joined by single spaces; otherwise the period is
  empty and the subject is the tokens from index 1 joined by single spaces. The four
  tokens named in the specification are period tokens.
\<close>

theorem period_detection:
  "(isRecordLine p \<and> 2 \<le> length (parts_of (content_of (trim (p_text p)))) \<longrightarrow>
      (\<exists>r. process_paragraph p (d, rs) = (d, rs @ [r]) \<and>
         (let parts = parts_of (content_of (trim (p_text p))) in
          if spec_period_token (parts ! 1)
          then period r = parts ! 1 \<and> subject r = js_join [0x20] (drop 2 parts)
          else period r = [] \<and> subject r = js_join [0x20] (drop 1 parts)))) \<and>
   spec_period_token [0x33, 0x9650] \<and>
   spec_period_token [0x31, 0x30FB, 0x32, 0x9650] \<and>
   spec_period_token [0x37, 0x30FB, 0x38, 0x9650] \<and>
   spec_period_token [0x7A7A, 0x304D, 0x30B3, 0x30DE]"
proof -
  have tokens: "spec_period_token [0x33, 0x9650]"
    "spec_period_token [0x31, 0x30FB, 0x32, 0x9650]"
    "spec_period_token [0x37, 0x30FB, 0x38, 0x9650]"
    "spec_period_token [0x7A7A, 0x304D, 0x30B3, 0x30DE]"
    unfolding isPeriodToken_spec [symmetric]
    by (simp_all add: isPeriodToken_def isDigit_def)
  have main: "\<exists>r. process_paragraph p (d, rs) = (d, rs @ [r]) \<and>
         (let parts = parts_of (content_of (trim (p_text p))) in
          if spec_period_token (parts ! 1)
          then period r = parts ! 1 \<and> subject r = js_join [0x20] (drop 2 parts)
          else period r = [] \<and> subject r = js_join [0x20] (drop 1 parts))"
    if rl: "isRecordLine p" and len: "2 \<le> length (parts_of (content_of (trim (p_text p))))"
  proof -
    from record_line_step [OF rl] obtain symb where
      st: "process_paragraph p (d, rs) = (d, rs @ [build_item d symb (trim (p_text p))])"
      by blast
    have "let parts = parts_of (content_of (trim (p_text p))) in
          if spec_period_token (parts ! 1)
          then period (build_item d symb (trim (p_text p))) = parts ! 1 \<and>
               subject (build_item d symb (trim (p_text p))) = js_join [0x20] (drop 2 parts)
          else period (build_item d symb (trim (p_text p))) = [] \<and>
               subject (build_item d symb (trim (p_text p))) = js_join [0x20] (drop 1 parts)"
      using len by (simp add: build_item_period build_item_subject Let_def isPeriodToken_spec)
    with st show ?thesis by blast
  qed
  from tokens main show ?thesis by blast
qed

lemma ex_cancel_parts:
  "parts_of (content_of (trim (p_text ex_cancel))) =
     [[0x31, 0x2D, 0x41], [0x33, 0x9650], [0x45, 0x6E, 0x67, 0x6C, 0x69, 0x73, 0x68]]"
  unfolding ex_cancel_line(2) by (simp add: eval_defs)

lemma ex_change_parts:
  "parts_of (content_of (trim (p_text ex_change))) =
     [[0x32, 0x2D, 0x42], [0x5FDC, 0x7528, 0x21D2, 0x6570, 0x5B66]]"
  unfolding ex_change_line(2) by (simp add: eval_defs)

lemma ex_record_lines: "isRecordLine ex_cancel" "isRecordLine ex_change"
  by (simp_all add: isRecordLine_def ex_cancel_line ex_change_line symbolMatch_def isSymbol_def)

theorem period_detection_witness:
  "isRecordLine ex_cancel \<and> 2 \<le> length (parts_of (content_of (trim (p_text ex_cancel)))) \<and>
   parts_of (content_of (trim (p_text ex_cancel))) ! 1 = [0x33, 0x9650] \<and>
   spec_period_token [0x33, 0x9650] \<and>
   process_paragraph ex_cancel ([], []) = ([], [] @ [ex_cancel_item date_unknown]) \<and>
   period (ex_cancel_item date_unknown) = [0x33, 0x9650] \<and>
   subject (ex_cancel_item date_unknown) =
     js_join [0x20] (drop 2 (parts_of (content_of (trim (p_text ex_cancel)))))"
proof -
  have st: "process_paragraph ex_cancel ([], []) = ([], [] @ [ex_cancel_item date_unknown])"
    by (simp add: step_ex_cancel or_else_def)
  have h: "isRecordLine ex_cancel \<and>
      2 \<le> length (parts_of (content_of (trim (p_text ex_cancel))))"
    by (simp add: ex_record_lines ex_cancel_parts)
  from period_detection [of ex_cancel "[]" "[]"] h
  have tok: "spec_period_token [0x33, 0x9650]"
    and "\<exists>r. process_paragraph ex_cancel ([], []) = ([], [] @ [r]) \<and>
         (let parts = parts_of (content_of (trim (p_text ex_cancel))) in
          if spec_period_token (parts ! 1)
          then period r = parts ! 1 \<and> subject r = js_join [0x20] (drop 2 parts)
          else period r = [] \<and> subject r = js_join [0x20] (drop 1 parts))"
    by blast+
  then have "period (ex_cancel_item date_unknown) = [0x33, 0x9650] \<and>
     subject (ex_cancel_item date_unknown) =
       js_join [0x20] (drop 2 (parts_of (content_of (trim (p_text ex_cancel)))))"
    unfolding st ex_cancel_parts by (simp add: tok)
  with h st tok show ?thesis by (simp add: ex_cancel_parts)
qed

section \<open>The change of subject\<close>

lemma ex_dangling_line:
  "\<not> isDateLine ex_dangling"
  "trim (p_text ex_dangling) = [0x25C9, 0x31, 0x2D, 0x41, 0x20, 0x41, 0x21D2]"
  by (simp_all add: ex_dangling_def eval_defs)

lemma ex_dangling_build:
  "build_item [] [0x25C9] [0x25C9, 0x31, 0x2D, 0x41, 0x20, 0x41, 0x21D2] = ex_dangling_item"
  apply (simp add: build_item_def ex_dangling_item_def)
  apply (simp add: eval_defs)
  done

lemma step_ex_dangling:
  "process_paragraph ex_dangling ([], []) = ([], [ex_dangling_item])"
proof -
  have "symbolMatch (trim (p_text ex_dangling)) = Some [0x25C9]"
    by (simp add: ex_dangling_line symbolMatch_def isSymbol_def)
  from step_record_line [OF ex_dangling_line(1) this]
  show ?thesis by (simp add: ex_dangling_line(2) ex_dangling_build)
qed

text \<open>
  Claim C1, as stated, fails: the subject \<^verbatim>\<open>A\<close> followed by U+21D2 splits into two
  segments, the second one empty, and the record has neither \<open>subject_from\<close> nor
  \<open>subject_to\<close>, because the source adds them only when both strings are non-empty
  (\<^verbatim>\<open>if (subjectFrom && subjectTo)\<close>).
\<close>

theorem arrow_split_counterexample:
  "isRecordLine ex_dangling \<and>
   process_paragraph ex_dangling ([], []) = ([], [ex_dangling_item]) \<and>
   js_split arrowRegex (subject ex_dangling_item) = [[0x41], []] \<and>
   subject_from ex_dangling_item = None \<and>
   subject_to ex_dangling_item = None"
proof -
  have 1: "isRecordLine ex_dangling"
    by (simp add: isRecordLine_def ex_dangling_line symbolMatch_def isSymbol_def)
  have 2: "js_split arrowRegex (subject ex_dangling_item) = [[0x41], []]"
    by (simp add: ex_dangling_item_def js_split_def arrowRegex_def isWhiteSpace_def)
  have 3: "subject_from ex_dangling_item = None" "subject_to ex_dangling_item = None"
    by (simp_all add: ex_dangling_item_def)
  from 1 step_ex_dangling 2 3 show ?thesis by blast
qed

text \<open>The arrow pattern on a string that begins with an arrow between white space.\<close>

lemma takeWhile_prefix_run:
  assumes "\<forall>c\<in>set w. P c" "rest = [] \<or> \<not> P (hd rest)"
  shows "takeWhile P (w @ rest) = w"
proof -
  have "takeWhile P rest = []" using assms(2) by (cases rest) auto
  then show ?thesis using assms(1) by (simp add: takeWhile_append2)
qed

lemma arrowGlyph_arrows:
  "g \<in> arrows \<Longrightarrow> arrowGlyph (g @ s) = Some (length g) \<and> \<not> isWhiteSpace (hd (g @ s))"
  by (cases s) (auto simp add: arrows_def isWhiteSpace_def)

lemma arrowRegex_match:
  assumes w1: "\<forall>c\<in>set w1. isWhiteSpace c" and w2: "\<forall>c\<in>set w2. isWhiteSpace c"
    and g: "g \<in> arrows" and b: "b = [] \<or> \<not> isWhiteSpace (hd b)"
  shows "arrowRegex (w1 @ g @ w2 @ b) = Some (length w1 + length g + length w2)"
proof -
  have ne: "g @ w2 @ b \<noteq> []" using g by (auto simp add: arrows_def)
  have t1: "takeWhile isWhiteSpace (w1 @ g @ w2 @ b) = w1"
    using w1 arrowGlyph_arrows [OF g, of "w2 @ b"] ne
    by (intro takeWhile_prefix_run) auto
  have t2: "takeWhile isWhiteSpace (w2 @ b) = w2"
    using w2 b by (rule takeWhile_prefix_run)
  show ?thesis
    using arrowGlyph_arrows [OF g, of "w2 @ b"]
    by (simp add: arrowRegex_def Let_def t1 t2)
qed

lemma arrowRegex_no_match:
  "\<not> isWhiteSpace c \<Longrightarrow> c \<notin> {0x21D2, 0x2192, 0x3D, 0x2D} \<Longrightarrow> arrowRegex (c # s) = None"
  by (cases s) (simp_all add: arrowRegex_def)

lemma split_loop_plain:
  "\<forall>c\<in>set a. \<not> isWhiteSpace c \<and> c \<notin> {0x21D2, 0x2192, 0x3D, 0x2D} \<Longrightarrow>
     split_loop arrowRegex seg (a @ s) = split_loop arrowRegex (rev a @ seg) s"
proof (induction a arbitrary: seg)
  case Nil
  show ?case by simp
next
  case (Cons c a)
  then have "arrowRegex (c # a @ s) = None" by (simp add: arrowRegex_no_match)
  then show ?case using Cons by simp
qed

lemma js_split_Nil: "js_split arrowRegex [] = [[]]"
  by (simp add: js_split_def arrowRegex_def)

lemma split_loop_js_split: "split_loop arrowRegex [] b = js_split arrowRegex b"
  by (cases b) (simp_all add: js_split_def arrowRegex_def)

lemma js_split_first_arrow:
  assumes a: "\<forall>c\<in>set a. \<not> isWhiteSpace c \<and> c \<notin> {0x21D2, 0x2192, 0x3D, 0x2D}"
    and w1: "\<forall>c\<in>set w1. isWhiteSpace c" and w2: "\<forall>c\<in>set w2. isWhiteSpace c"
    and g: "g \<in> arrows" and b: "b = [] \<or> \<not> isWhiteSpace (hd b)"
  shows "js_split arrowRegex (a @ w1 @ g @ w2 @ b) = a # js_split arrowRegex b"
proof -
  let ?s = "w1 @ g @ w2 @ b"
  let ?n = "length w1 + length g + length w2"
  have gne: "g \<noteq> []" using g by (auto simp add: arrows_def)
  then obtain x xs where s: "?s = x # xs" by (cases ?s) auto
  have m: "arrowRegex (x # xs) = Some ?n"
    using arrowRegex_match [OF w1 w2 g b] s by simp
  have n: "0 < length g" using gne by simp
  have d: "drop ?n (x # xs) = b"
    unfolding s [symmetric] by simp
  have "js_split arrowRegex (a @ ?s) = split_loop arrowRegex [] (a @ ?s)"
    using gne by (simp add: js_split_def)
  also have "\<dots> = split_loop arrowRegex (rev a) (x # xs)"
    using split_loop_plain [OF a, of "[]" ?s] s by simp
  also have "\<dots> = rev (rev a) # split_loop arrowRegex [] (drop ?n (x # xs))"
    using n by (simp add: m min_def)
  also have "\<dots> = a # split_loop arrowRegex [] b"
    unfolding d by simp
  finally show ?thesis by (simp add: split_loop_js_split)
qed

text \<open>
  Claim C1, amended. For every record line the subject is split at the arrow pattern.
  When the split gives more than one segment and both the first segment and the other
  segments joined by U+21D2 are non-empty, \<open>subject_from\<close> is the first segment and
  \<open>subject_to\<close> is that join; in every other case both fields are absent. The split
  itself: a stretch without white space and without the first code unit of an arrow,
  then one of the four arrows between runs of white space, is cut off as one segment.
\<close>

theorem arrow_split:
  "(isRecordLine p \<longrightarrow>
      (\<exists>r. process_paragraph p (d, rs) = (d, rs @ [r]) \<and>
         (let segs = js_split arrowRegex (subject r) in
          if 1 < length segs \<and> segs ! 0 \<noteq> [] \<and> js_join [0x21D2] (drop 1 segs) \<noteq> []
          then subject_from r = Some (segs ! 0) \<and>
               subject_to r = Some (js_join [0x21D2] (drop 1 segs))
          else subject_from r = None \<and> subject_to r = None))) \<and>
   ((\<forall>c\<in>set a. \<not> isWhiteSpace c \<and> c \<notin> {0x21D2, 0x2192, 0x3D, 0x2D}) \<and>
    (\<forall>c\<in>set w1. isWhiteSpace c) \<and> (\<forall>c\<in>set w2. isWhiteSpace c) \<and>
    g \<in> arrows \<and> (b = [] \<or> \<not> isWhiteSpace (hd b)) \<longrightarrow>
      js_split arrowRegex (a @ w1 @ g @ w2 @ b) = a # js_split arrowRegex b)"
proof
  show "isRecordLine p \<longrightarrow>
      (\<exists>r. process_paragraph p (d, rs) = (d, rs @ [r]) \<and>
         (let segs = js_split arrowRegex (subject r) in
          if 1 < length segs \<and> segs ! 0 \<noteq> [] \<and> js_join [0x21D2] (drop 1 segs) \<noteq> []
          then subject_from r = Some (segs ! 0) \<and>
               subject_to r = Some (js_join [0x21D2] (drop 1 segs))
          else subject_from r = None \<and> subject_to r = None))"
  proof
    assume "isRecordLine p"
    from record_line_step [OF this] obtain symb where
      st: "process_paragraph p (d, rs) = (d, rs @ [build_item d symb (trim (p_text p))])"
      by blast
    let ?r = "build_item d symb (trim (p_text p))"
    have "let segs = js_split arrowRegex (subject ?r) in
          if 1 < length segs \<and> segs ! 0 \<noteq> [] \<and> js_join [0x21D2] (drop 1 segs) \<noteq> []
          then subject_from ?r = Some (segs ! 0) \<and>
               subject_to ?r = Some (js_join [0x21D2] (drop 1 segs))
          else subject_from ?r = None \<and> subject_to ?r = None"
      using build_item_from_to [of d symb "trim (p_text p)"]
      by (simp add: Let_def split: if_splits)
    with st show "\<exists>r. process_paragraph p (d, rs) = (d, rs @ [r]) \<and>
         (let segs = js_split arrowRegex (subject r) in
          if 1 < length segs \<and> segs ! 0 \<noteq> [] \<and> js_join [0x21D2] (drop 1 segs) \<noteq> []
          then subject_from r = Some (segs ! 0) \<and>
               subject_to r = Some (js_join [0x21D2] (drop 1 segs))
          else subject_from r = None \<and> subject_to r = None)"
      by blast
  qed
next
  show "(\<forall>c\<in>set a. \<not> isWhiteSpace c \<and> c \<notin> {0x21D2, 0x2192, 0x3D, 0x2D}) \<and>
    (\<forall>c\<in>set w1. isWhiteSpace c) \<and> (\<forall>c\<in>set w2. isWhiteSpace c) \<and>
    g \<in> arrows \<and> (b = [] \<or> \<not> isWhiteSpace (hd b)) \<longrightarrow>
      js_split arrowRegex (a @ w1 @ g @ w2 @ b) = a # js_split arrowRegex b"
    using js_split_first_arrow [of a w1 w2 g b] by blast
qed

lemma ex_change_split:
  "js_split arrowRegex (subject (ex_change_item d)) = [[0x5FDC, 0x7528], [0x6570, 0x5B66]]"
  by (simp add: ex_change_item_def js_split_def arrowRegex_def isWhiteSpace_def)

theorem arrow_split_witness:
  "isRecordLine ex_change \<and>
   process_paragraph ex_change ([], []) = ([], [] @ [ex_change_item date_unknown]) \<and>
   js_split arrowRegex (subject (ex_change_item date_unknown)) =
     [[0x5FDC, 0x7528], [0x6570, 0x5B66]] \<and>
   subject_from (ex_change_item date_unknown) = Some [0x5FDC, 0x7528] \<and>
   subject_to (ex_change_item date_unknown) = Some [0x6570, 0x5B66] \<and>
   [0x2D, 0x3E] \<in> arrows \<and>
   js_split arrowRegex ([0x58] @ [0x20] @ [0x2D, 0x3E] @ [0x20] @ [0x59]) =
     [0x58] # js_split arrowRegex [0x59]"
proof -
  have st: "process_paragraph ex_change ([], []) = ([], [] @ [ex_change_item date_unknown])"
    by (simp add: step_ex_change or_else_def)
  have h2: "(\<forall>c\<in>set [0x58]. \<not> isWhiteSpace c \<and> c \<notin> {0x21D2, 0x2192, 0x3D, 0x2D}) \<and>
    (\<forall>c\<in>set [0x20]. isWhiteSpace c) \<and> (\<forall>c\<in>set [0x20]. isWhiteSpace c) \<and>
    [0x2D, 0x3E] \<in> arrows \<and> ([0x59] = [] \<or> \<not> isWhiteSpace (hd [0x59]))"
    by (simp add: isWhiteSpace_def arrows_def)
  note inst = arrow_split [of ex_change "[]" "[]" "[0x58]" "[0x20]" "[0x20]" "[0x2D, 0x3E]" "[0x59]"]
  from inst ex_record_lines(2)
  have "\<exists>r. process_paragraph ex_change ([], []) = ([], [] @ [r]) \<and>
         (let segs = js_split arrowRegex (subject r) in
          if 1 < length segs \<and> segs ! 0 \<noteq> [] \<and> js_join [0x21D2] (drop 1 segs) \<noteq> []
          then subject_from r = Some (segs ! 0) \<and>
               subject_to r = Some (js_join [0x21D2] (drop 1 segs))
          else subject_from r = None \<and> subject_to r = None)"
    by blast
  then have ft: "subject_from (ex_change_item date_unknown) = Some [0x5FDC, 0x7528] \<and>
      subject_to (ex_change_item date_unknown) = Some [0x6570, 0x5B66]"
    unfolding st by (simp add: ex_change_split)
  from inst h2 have sp: "js_split arrowRegex ([0x58] @ [0x20] @ [0x2D, 0x3E] @ [0x20] @ [0x59]) =
     [0x58] # js_split arrowRegex [0x59]"
    by blast
  from ex_record_lines(2) st ex_change_split [of date_unknown] ft h2 sp show ?thesis
    by blast
qed

section \<open>The raw text\<close>

lemma replace_all_trimmed:
  assumes "\<And>c. \<not> isWhiteSpace c \<Longrightarrow> P c \<Longrightarrow> \<not> isWhiteSpace (f c)" "trimmed s"
  shows "trimmed (replace_all P f s)"
  using assms by (auto simp add: trimmed_def replace_all_def hd_map last_map split: if_splits)

lemma shifted_not_white:
  "0xFF01 \<le> c \<and> c \<le> 0xFF5E \<Longrightarrow> \<not> isWhiteSpace (c - 0xFEE0)"
  unfolding isWhiteSpace_def by arith

lemma toHalfWidth_trimmed: "trimmed s \<Longrightarrow> trimmed (toHalfWidth s)"
  unfolding toHalfWidth_def
  by (intro replace_all_trimmed) (simp_all add: shifted_not_white, simp_all add: isWhiteSpace_def)

lemma trim_trimmed: "trimmed (trim s)"
proof (cases "trim s = []")
  case True
  then show ?thesis by (simp add: trimmed_def)
next
  case False
  let ?ys = "dropWhile isWhiteSpace s"
  let ?zs = "dropWhile isWhiteSpace (rev ?ys)"
  from False have zs: "?zs \<noteq> []" by (simp add: trim_def)
  have ys: "?ys \<noteq> []"
  proof
    assume e: "?ys = []"
    have "?zs = []" unfolding e by simp
    with zs show False by simp
  qed
  have "last (trim s) = hd ?zs" using zs by (simp add: trim_def last_rev)
  then have l: "\<not> isWhiteSpace (last (trim s))" using hd_dropWhile [OF zs] by simp
  have "?ys = rev ?zs @ rev (takeWhile isWhiteSpace (rev ?ys))"
    by (metis rev_append rev_rev_ident takeWhile_dropWhile_id)
  then have "hd ?ys = hd (rev ?zs @ rev (takeWhile isWhiteSpace (rev ?ys)))" by simp
  also have "\<dots> = hd (rev ?zs)" using zs by simp
  finally have "hd (trim s) = hd ?ys" by (simp add: trim_def)
  then have h: "\<not> isWhiteSpace (hd (trim s))" using hd_dropWhile [OF ys] by simp
  from h l show ?thesis by (simp add: trimmed_def)
qed

lemma content_trimmed: "trimmed (content_of raw)"
  unfolding content_of_def by (intro toHalfWidth_trimmed trim_trimmed)

lemma match_spaces_None: "\<not> isWhiteSpace c \<Longrightarrow> match_spaces (c # cs) = None"
  by (simp add: match_spaces_def)

lemma match_spaces_Some:
  "isWhiteSpace c \<Longrightarrow>
     match_spaces (c # cs) = Some (length (takeWhile isWhiteSpace (c # cs)))"
  by (simp add: match_spaces_def)

lemma split_loop_tokens:
  assumes "s = [] \<longrightarrow> seg \<noteq> []" "s \<noteq> [] \<longrightarrow> \<not> isWhiteSpace (last s)"
    "seg = [] \<longrightarrow> s \<noteq> [] \<and> \<not> isWhiteSpace (hd s)"
  shows "\<forall>t\<in>set (split_loop match_spaces seg s). t \<noteq> []"
  using assms
proof (induction match_spaces seg s rule: split_loop.induct)
  case (1 seg)
  then show ?case by simp
next
  case (2 seg c cs)
  show ?case
  proof (cases "isWhiteSpace c")
    case False
    then have m: "match_spaces (c # cs) = None" by (rule match_spaces_None)
    have "\<forall>t\<in>set (split_loop match_spaces (c # seg) cs). t \<noteq> []"
    proof (rule "2.hyps"(1) [OF m])
      show "cs = [] \<longrightarrow> c # seg \<noteq> []" by simp
      show "cs \<noteq> [] \<longrightarrow> \<not> isWhiteSpace (last cs)" using "2.prems"(2) by auto
      show "c # seg = [] \<longrightarrow> cs \<noteq> [] \<and> \<not> isWhiteSpace (hd cs)" by simp
    qed
    then show ?thesis using m by simp
  next
    case True
    let ?n = "length (takeWhile isWhiteSpace (c # cs))"
    have m: "match_spaces (c # cs) = Some ?n" using True by (rule match_spaces_Some)
    have n: "\<not> (min ?n (length (c # cs)) = 0 \<and> seg = [])" using True by simp
    have seg: "seg \<noteq> []" using "2.prems"(3) True by auto
    have d: "drop ?n (c # cs) = dropWhile isWhiteSpace (c # cs)"
      by (rule dropWhile_eq_drop [symmetric])
    have lastc: "\<not> isWhiteSpace (last (c # cs))" using "2.prems"(2) by simp
    have dne: "dropWhile isWhiteSpace (c # cs) \<noteq> []"
    proof
      assume "dropWhile isWhiteSpace (c # cs) = []"
      then have "\<forall>x\<in>set (c # cs). isWhiteSpace x" by (simp only: dropWhile_eq_Nil_conv)
      moreover have "last (c # cs) \<in> set (c # cs)" by (rule last_in_set) simp
      ultimately show False using lastc by blast
    qed
    have dl: "last (dropWhile isWhiteSpace (c # cs)) = last (c # cs)"
    proof -
      have "c # cs = takeWhile isWhiteSpace (c # cs) @ dropWhile isWhiteSpace (c # cs)"
        by (simp only: takeWhile_dropWhile_id)
      then have "last (c # cs) =
          last (takeWhile isWhiteSpace (c # cs) @ dropWhile isWhiteSpace (c # cs))"
        by (rule arg_cong)
      also have "\<dots> = last (dropWhile isWhiteSpace (c # cs))"
        using dne by (simp only: last_append if_False)
      finally show ?thesis by (rule sym)
    qed
    have "\<forall>t\<in>set (split_loop match_spaces [] (drop ?n (c # cs))). t \<noteq> []"
    proof (rule "2.hyps"(3) [OF m n])
      show "drop ?n (c # cs) = [] \<longrightarrow> [] \<noteq> ([]::ustring)"
        unfolding d using dne by simp
      show "drop ?n (c # cs) \<noteq> [] \<longrightarrow> \<not> isWhiteSpace (last (drop ?n (c # cs)))"
        unfolding d dl using lastc by simp
      show "([]::ustring) = [] \<longrightarrow>
          drop ?n (c # cs) \<noteq> [] \<and> \<not> isWhiteSpace (hd (drop ?n (c # cs)))"
        unfolding d using dne hd_dropWhile [OF dne] by simp
    qed
    then show ?thesis
      unfolding split_loop.simps(2) [of match_spaces seg c cs] m
      using n seg by simp
  qed
qed

lemma parts_nonempty:
  assumes "trimmed s" "s \<noteq> []"
  shows "\<forall>t\<in>set (parts_of s). t \<noteq> []"
proof -
  have "\<forall>t\<in>set (split_loop match_spaces [] s). t \<noteq> []"
    using assms by (intro split_loop_tokens) (simp_all add: trimmed_def)
  then show ?thesis using assms(2) by (simp add: parts_of_def js_split_def)
qed

lemma parts_empty: "parts_of [] = [[]]"
  by (simp add: parts_of_def js_split_def match_spaces_def)

lemma js_join_nonempty:
  "xs \<noteq> [] \<Longrightarrow> \<forall>t\<in>set xs. t \<noteq> [] \<Longrightarrow> js_join sep xs \<noteq> []"
  by (induction sep xs rule: js_join.induct) simp_all

lemma isPeriodToken_nonempty: "isPeriodToken t \<Longrightarrow> t \<noteq> []"
  by (auto simp add: isPeriodToken_def)

lemma reconstruct:
  assumes "(\<forall>t\<in>set parts. t \<noteq> []) \<or> parts = [[]]"
  shows "js_join [0x20] parts =
     (case parts of [] \<Rightarrow> [] | t # ts \<Rightarrow> t) @
     (if (if 1 < length parts \<and> isPeriodToken (parts ! 1) then parts ! 1 else []) = [] then []
      else 0x20 # (if 1 < length parts \<and> isPeriodToken (parts ! 1) then parts ! 1 else [])) @
     (if js_join [0x20]
           (drop (if 1 < length parts \<and> isPeriodToken (parts ! 1) then 2 else 1) parts) = []
      then []
      else 0x20 # js_join [0x20]
           (drop (if 1 < length parts \<and> isPeriodToken (parts ! 1) then 2 else 1) parts))"
proof (cases parts)
  case Nil
  then show ?thesis by simp
next
  case (Cons t0 ts)
  note p0 = Cons
  show ?thesis
  proof (cases ts)
    case Nil
    then show ?thesis using p0 by simp
  next
    case (Cons t1 rest)
    with p0 assms have ne: "\<forall>t\<in>set (t0 # t1 # rest). t \<noteq> []" by auto
    then have t1: "t1 \<noteq> []" by simp
    have j1: "js_join [0x20] (t1 # rest) \<noteq> []"
      using ne by (intro js_join_nonempty) simp_all
    show ?thesis
    proof (cases "isPeriodToken t1")
      case False
      then show ?thesis using p0 Cons j1 by simp
    next
      case True
      show ?thesis
      proof (cases rest)
        case Nil
        then show ?thesis using p0 Cons True t1 by simp
      next
        case (Cons t2 more)
        have "js_join [0x20] (t2 # more) \<noteq> []"
          using ne Cons by (intro js_join_nonempty) simp_all
        then show ?thesis using p0 \<open>ts = t1 # rest\<close> Cons True t1 by simp
      qed
    qed
  qed
qed

lemma content_parts:
  "(\<forall>t\<in>set (parts_of (content_of raw)). t \<noteq> []) \<or> parts_of (content_of raw) = [[]]"
proof (cases "content_of raw = []")
  case True
  then show ?thesis by (simp add: parts_empty)
next
  case False
  with parts_nonempty [OF content_trimmed False] show ?thesis by simp
qed

lemma build_item_reproducible:
  assumes "js_join [0x20] (parts_of (content_of raw)) = content_of raw"
  shows "raw_text (build_item d symb raw) =
     symb @ target_class (build_item d symb raw) @
     (if period (build_item d symb raw) = [] then [] else 0x20 # period (build_item d symb raw)) @
     (if subject (build_item d symb raw) = [] then []
      else 0x20 # subject (build_item d symb raw))"
proof -
  note r = reconstruct [OF content_parts [of raw]]
  show ?thesis
    unfolding build_item_raw_text build_item_target_class build_item_period build_item_subject
      Let_def
    using r assms by simp
qed

lemma symbolMatch_take: "symbolMatch raw = Some symb \<Longrightarrow> symb = take 1 raw"
  by (auto simp add: symbolMatch_def split: list.splits if_splits)

text \<open>
  Claim C8, amended. In every record \<open>raw_text\<close> is the symbol, which is the first
  code unit of the trimmed paragraph text, followed by the normalized content. When the
  tokens of the content are separated by single spaces (the content equals its tokens
  joined by U+0020), \<open>raw_text\<close> is rebuilt from the other fields: the symbol, the
  target class, then the period and the subject, each after a space when not empty.
\<close>

theorem raw_text_content:
  "\<forall>r\<in>set (parseCancellationHtml ps). \<exists>p\<in>set ps.
     isRecordLine p \<and>
     symbol r = take 1 (trim (p_text p)) \<and>
     raw_text r = symbol r @ content_of (trim (p_text p)) \<and>
     (js_join [0x20] (parts_of (content_of (trim (p_text p)))) = content_of (trim (p_text p)) \<longrightarrow>
        raw_text r =
          symbol r @ target_class r @
          (if period r = [] then [] else 0x20 # period r) @
          (if subject r = [] then [] else 0x20 # subject r))"
proof
  fix r assume "r \<in> set (parseCancellationHtml ps)"
  then obtain p d symb where p: "p \<in> set ps" and nd: "\<not> isDateLine p"
    and m: "symbolMatch (trim (p_text p)) = Some symb"
    and r: "r = build_item d symb (trim (p_text p))"
    using parse_emits by blast
  have rl: "isRecordLine p" using nd m by (simp add: isRecordLine_def)
  have sy: "symbol r = take 1 (trim (p_text p))"
    unfolding r build_item_symbol using m by (rule symbolMatch_take)
  have rt: "raw_text r = symbol r @ content_of (trim (p_text p))"
    unfolding r by (simp add: build_item_raw_text build_item_symbol)
  have rp: "js_join [0x20] (parts_of (content_of (trim (p_text p)))) = content_of (trim (p_text p)) \<longrightarrow>
        raw_text r =
          symbol r @ target_class r @
          (if period r = [] then [] else 0x20 # period r) @
          (if subject r = [] then [] else 0x20 # subject r)"
    unfolding r using build_item_reproducible [of "trim (p_text p)" d symb]
    by (simp add: build_item_symbol)
  from p rl sy rt rp show "\<exists>p\<in>set ps.
     isRecordLine p \<and>
     symbol r = take 1 (trim (p_text p)) \<and>
     raw_text r = symbol r @ content_of (trim (p_text p)) \<and>
     (js_join [0x20] (parts_of (content_of (trim (p_text p)))) = content_of (trim (p_text p)) \<longrightarrow>
        raw_text r =
          symbol r @ target_class r @
          (if period r = [] then [] else 0x20 # period r) @
          (if subject r = [] then [] else 0x20 # subject r))"
    by blast
qed

lemma ex_wide_line:
  "\<not> isDateLine ex_wide"
  "trim (p_text ex_wide) = [0x2606, 0x32, 0x2D, 0x42, 0x20, 0x20, 0x33, 0x20, 0x58]"
  by (simp_all add: ex_wide_def eval_defs)

lemma ex_wide_build:
  "build_item [] [0x2606] [0x2606, 0x32, 0x2D, 0x42, 0x20, 0x20, 0x33, 0x20, 0x58] =
   ex_spaced_item ([0x2606] @ ascii ''2-B  3 X'')"
  apply (simp add: build_item_def ex_spaced_item_def)
  apply (simp add: eval_defs date_unknown_def)
  done

lemma parse_ex_wide:
  "parseCancellationHtml [ex_wide] = [ex_spaced_item ([0x2606] @ ascii ''2-B  3 X'')]"
proof -
  have "symbolMatch (trim (p_text ex_wide)) = Some [0x2606]"
    by (simp add: ex_wide_line symbolMatch_def isSymbol_def)
  from step_record_line [OF ex_wide_line(1) this, of "[]" "[]"]
  show ?thesis
    by (simp add: parseCancellationHtml_def parse_from_def ex_wide_line(2) ex_wide_build)
qed

lemma ex_narrow_line:
  "\<not> isDateLine ex_narrow"
  "trim (p_text ex_narrow) = [0x2606, 0x32, 0x2D, 0x42, 0x20, 0x33, 0x20, 0x58]"
  by (simp_all add: ex_narrow_def eval_defs)

lemma ex_narrow_build:
  "build_item [] [0x2606] [0x2606, 0x32, 0x2D, 0x42, 0x20, 0x33, 0x20, 0x58] =
   ex_spaced_item ([0x2606] @ ascii ''2-B 3 X'')"
  apply (simp add: build_item_def ex_spaced_item_def)
  apply (simp add: eval_defs date_unknown_def)
  done

lemma parse_ex_narrow:
  "parseCancellationHtml [ex_narrow] = [ex_spaced_item ([0x2606] @ ascii ''2-B 3 X'')]"
proof -
  have "symbolMatch (trim (p_text ex_narrow)) = Some [0x2606]"
    by (simp add: ex_narrow_line symbolMatch_def isSymbol_def)
  from step_record_line [OF ex_narrow_line(1) this, of "[]" "[]"]
  show ?thesis
    by (simp add: parseCancellationHtml_def parse_from_def ex_narrow_line(2) ex_narrow_build)
qed

text \<open>
  Claim C8, as stated, fails in its second half: two record lines that differ only in
  the white space between two tokens give records with the same symbol, target class,
  period and subject, and different \<open>raw_text\<close>. So \<open>raw_text\<close> is not a function of
  the other fields.
\<close>

theorem raw_text_counterexample:
  "parseCancellationHtml [ex_wide] = [ex_spaced_item ([0x2606] @ ascii ''2-B  3 X'')] \<and>
   parseCancellationHtml [ex_narrow] = [ex_spaced_item ([0x2606] @ ascii ''2-B 3 X'')] \<and>
   symbol (ex_spaced_item ([0x2606] @ ascii ''2-B  3 X'')) =
     symbol (ex_spaced_item ([0x2606] @ ascii ''2-B 3 X'')) \<and>
   target_class (ex_spaced_item ([0x2606] @ ascii ''2-B  3 X'')) =
     target_class (ex_spaced_item ([0x2606] @ ascii ''2-B 3 X'')) \<and>
   period (ex_spaced_item ([0x2606] @ ascii ''2-B  3 X'')) =
     period (ex_spaced_item ([0x2606] @ ascii ''2-B 3 X'')) \<and>
   subject (ex_spaced_item ([0x2606] @ ascii ''2-B  3 X'')) =
     subject (ex_spaced_item ([0x2606] @ ascii ''2-B 3 X'')) \<and>
   (ex_spaced_item ([0x2606] @ ascii ''2-B  3 X'')) \<lparr> raw_text := [] \<rparr> =
     (ex_spaced_item ([0x2606] @ ascii ''2-B 3 X'')) \<lparr> raw_text := [] \<rparr> \<and>
   raw_text (ex_spaced_item ([0x2606] @ ascii ''2-B  3 X'')) \<noteq>
     raw_text (ex_spaced_item ([0x2606] @ ascii ''2-B 3 X''))"
proof -
  have "raw_text (ex_spaced_item ([0x2606] @ ascii ''2-B  3 X'')) \<noteq>
     raw_text (ex_spaced_item ([0x2606] @ ascii ''2-B 3 X''))"
    by (simp add: ex_spaced_item_def ascii_def)
  with parse_ex_wide parse_ex_narrow show ?thesis
    by (simp add: ex_spaced_item_def)
qed

lemma ex_cancel_content:
  "content_of (trim (p_text ex_cancel)) =
     [0x31, 0x2D, 0x41, 0x20, 0x33, 0x9650, 0x20, 0x45, 0x6E, 0x67, 0x6C, 0x69, 0x73, 0x68]"
  unfolding ex_cancel_line(2) by (simp add: eval_defs)

theorem raw_text_content_witness:
  "ex_cancel_item date_unknown \<in> set (parseCancellationHtml [ex_cancel]) \<and>
   isRecordLine ex_cancel \<and>
   symbol (ex_cancel_item date_unknown) = take 1 (trim (p_text ex_cancel)) \<and>
   js_join [0x20] (parts_of (content_of (trim (p_text ex_cancel)))) =
     content_of (trim (p_text ex_cancel)) \<and>
   raw_text (ex_cancel_item date_unknown) =
     symbol (ex_cancel_item date_unknown) @ content_of (trim (p_text ex_cancel)) \<and>
   raw_text (ex_cancel_item date_unknown) =
     symbol (ex_cancel_item date_unknown) @ target_class (ex_cancel_item date_unknown) @
     (0x20 # period (ex_cancel_item date_unknown)) @
     (0x20 # subject (ex_cancel_item date_unknown))"
proof -
  have doc: "parseCancellationHtml [ex_cancel] = [ex_cancel_item date_unknown]"
    by (simp add: parseCancellationHtml_def parse_from_def step_ex_cancel or_else_def)
  have j: "js_join [0x20] (parts_of (content_of (trim (p_text ex_cancel)))) =
     content_of (trim (p_text ex_cancel))"
    unfolding ex_cancel_content by (simp add: eval_defs)
  have f: "period (ex_cancel_item date_unknown) \<noteq> []" "subject (ex_cancel_item date_unknown) \<noteq> []"
    by (simp_all add: ex_cancel_item_def ascii_def)
  have mem: "ex_cancel_item date_unknown \<in> set (parseCancellationHtml [ex_cancel])"
    by (simp add: doc)
  from bspec [OF raw_text_content [of "[ex_cancel]"] mem]
  obtain p where p: "p \<in> set [ex_cancel]"
    and props: "isRecordLine p \<and>
     symbol (ex_cancel_item date_unknown) = take 1 (trim (p_text p)) \<and>
     raw_text (ex_cancel_item date_unknown) =
       symbol (ex_cancel_item date_unknown) @ content_of (trim (p_text p)) \<and>
     (js_join [0x20] (parts_of (content_of (trim (p_text p)))) = content_of (trim (p_text p)) \<longrightarrow>
        raw_text (ex_cancel_item date_unknown) =
          symbol (ex_cancel_item date_unknown) @ target_class (ex_cancel_item date_unknown) @
          (if period (ex_cancel_item date_unknown) = [] then []
           else 0x20 # period (ex_cancel_item date_unknown)) @
          (if subject (ex_cancel_item date_unknown) = [] then []
           else 0x20 # subject (ex_cancel_item date_unknown)))"
    by blast
  from p have pe: "p = ex_cancel" by simp
  have k: "(if period (ex_cancel_item date_unknown) = [] then []
           else 0x20 # period (ex_cancel_item date_unknown)) =
          0x20 # period (ex_cancel_item date_unknown)"
    "(if subject (ex_cancel_item date_unknown) = [] then []
           else 0x20 # subject (ex_cancel_item date_unknown)) =
          0x20 # subject (ex_cancel_item date_unknown)"
    using f by simp_all
  from props j have "isRecordLine ex_cancel \<and>
     symbol (ex_cancel_item date_unknown) = take 1 (trim (p_text ex_cancel)) \<and>
     raw_text (ex_cancel_item date_unknown) =
       symbol (ex_cancel_item date_unknown) @ content_of (trim (p_text ex_cancel)) \<and>
     raw_text (ex_cancel_item date_unknown) =
          symbol (ex_cancel_item date_unknown) @ target_class (ex_cancel_item date_unknown) @
          (0x20 # period (ex_cancel_item date_unknown)) @
          (0x20 # subject (ex_cancel_item date_unknown))"
    unfolding pe k by blast
  with mem j show ?thesis by blast
qed

section \<open>The status of the answer\<close>







end
